theory Spec2Isabelle
  imports Complex_Main "HOL-Library.AList"
begin

section \<open>The incremental compilation cache of tsc\_wrapped (cache.js)\<close>

text \<open>
  The embedding follows the classes \<^verbatim>\<open>Cache\<close>, \<^verbatim>\<open>FileCache\<close>,
  \<^verbatim>\<open>ProgramAndFileCache\<close>, \<^verbatim>\<open>CachedFileLoader\<close> and
  \<^verbatim>\<open>UncachedFileLoader\<close> of the compiled module.

  \<^item> A JavaScript \<^verbatim>\<open>Map\<close> is an association list in insertion order with
    pairwise distinct keys: \<^verbatim>\<open>get\<close> is \<^const>\<open>map_of\<close>, \<^verbatim>\<open>set\<close> is
    \<^const>\<open>AList.update\<close> (an existing key keeps its place, a new key goes to the end),
    \<^verbatim>\<open>delete\<close> is \<^const>\<open>AList.delete\<close>, \<^verbatim>\<open>size\<close> is the length
    and \<^verbatim>\<open>keys()\<close> is the list of first components.
  \<^item> Mutation is explicit state passing: a method returns its result, the object after the
    call, and the list of messages it sent to the \<^verbatim>\<open>debug\<close> callback, in order.
  \<^item> A thrown \<^verbatim>\<open>Error\<close> is the left summand of the result; the object returned with
    it is the object as the throw leaves it.
  \<^item> The values stored in the caches (entry objects, source files, programs) are objects,
    which JavaScript treats as true in a condition, so \<^verbatim>\<open>if (entry)\<close> is the test
    that the lookup found something. Digests are strings, and the empty string is false in a
    condition: that test is written out in \<^verbatim>\<open>getLastDigest\<close>.
  \<^item> The counters are natural numbers. The number \<^verbatim>\<open>originalSize / 2\<close> of
    \<^verbatim>\<open>evict\<close> is a double holding half of an integer, which doubles represent
    exactly for every possible map size; it is a rational number here.
  \<^item> The calls of \<^verbatim>\<open>perfTrace\<close> (module \<^verbatim>\<open>./perf_trace\<close>) return nothing
    that the cache reads and are left out.
\<close>

subsection \<open>Messages sent to the debug callback\<close>

datatype event =
    CacheHit string string
  | CacheMiss string string
  | Evicting string
  | Evicted nat string
  | CacheMaxSize int
  | UpdatingDigests "(string \<times> string) list"
  | DroppingEntry string string string
  | LoadedFile string nat
  | LoadedProgram string nat

datatype error =
    InvalidArgument int
  | MissingDigest string "string list"
  | IOError string

subsection \<open>class Cache\<close>

record Stats =
  reads :: nat
  hits :: nat
  evictions :: nat

record 'v Cache =
  name :: string
  cmap :: "(string \<times> 'v) list"
  stats :: Stats

definition Cache_new :: "string \<Rightarrow> 'v Cache" where
  "Cache_new n = \<lparr>name = n, cmap = [], stats = \<lparr>reads = 0, hits = 0, evictions = 0\<rparr>\<rparr>"

definition Cache_set :: "string \<Rightarrow> 'v \<Rightarrow> 'v Cache \<Rightarrow> 'v Cache" where
  "Cache_set key v c = c\<lparr>cmap := AList.update key v (cmap c)\<rparr>"

definition Cache_get :: "string \<Rightarrow> bool \<Rightarrow> 'v Cache \<Rightarrow> 'v option \<times> 'v Cache \<times> event list" where
  "Cache_get key updateCache c =
     (let c1 = c\<lparr>stats := (stats c)\<lparr>reads := reads (stats c) + 1\<rparr>\<rparr>;
          entry = map_of (cmap c1) key
      in if updateCache then
           (case entry of
              Some e \<Rightarrow>
                (entry,
                 c1\<lparr>stats := (stats c1)\<lparr>hits := hits (stats c1) + 1\<rparr>,
                    cmap := AList.update key e (AList.delete key (cmap c1))\<rparr>,
                 [CacheHit (name c) key])
            | None \<Rightarrow> (entry, c1, [CacheMiss (name c) key]))
         else (entry, c1, []))"

definition Cache_delete :: "string \<Rightarrow> 'v Cache \<Rightarrow> 'v Cache" where
  "Cache_delete key c = c\<lparr>cmap := AList.delete key (cmap c)\<rparr>"

text \<open>
  The \<^verbatim>\<open>for (const key of this.map.keys())\<close> loop of \<^verbatim>\<open>evict\<close>. The only
  key it deletes is the one the iterator is at, so the keys it visits are the keys the map had
  when the loop started.
\<close>

fun evict_loop ::
  "(string \<Rightarrow> bool) option \<Rightarrow> string list \<Rightarrow> rat \<Rightarrow> (string \<times> 'v) list \<Rightarrow> (string \<times> 'v) list"
where
  "evict_loop unevictableKeys [] numberKeysToDrop m = m"
| "evict_loop unevictableKeys (key # ks) numberKeysToDrop m =
     (if numberKeysToDrop = 0 then m
      else if (case unevictableKeys of None \<Rightarrow> False | Some has \<Rightarrow> has key)
        then evict_loop unevictableKeys ks numberKeysToDrop m
      else evict_loop unevictableKeys ks (numberKeysToDrop - 1) (AList.delete key m))"

definition Cache_evict ::
  "(string \<Rightarrow> bool) option \<Rightarrow> 'v Cache \<Rightarrow> nat \<times> 'v Cache \<times> event list"
where
  "Cache_evict unevictableKeys c =
     (let originalSize = length (cmap c);
          numberKeysToDrop = (of_nat originalSize / 2 :: rat)
      in if numberKeysToDrop = 0 then (0, c, [Evicting (name c)])
         else
           let m = evict_loop unevictableKeys (map fst (cmap c)) numberKeysToDrop (cmap c);
               keysDropped = originalSize - length m
           in (keysDropped,
               c\<lparr>cmap := m,
                  stats := (stats c)\<lparr>evictions := evictions (stats c) + keysDropped\<rparr>\<rparr>,
               [Evicting (name c), Evicted keysDropped (name c)]))"

definition Cache_keys :: "'v Cache \<Rightarrow> string list" where
  "Cache_keys c = map fst (cmap c)"

definition Cache_resetStats :: "'v Cache \<Rightarrow> 'v Cache" where
  "Cache_resetStats c = c\<lparr>stats := \<lparr>reads = 0, hits = 0, evictions = 0\<rparr>\<rparr>"

subsection \<open>class FileCache\<close>

record 'v SourceFileEntry =
  digest :: string
  value' :: 'v

record 'v FileCache =
  fileCache :: "'v SourceFileEntry Cache"
  lastDigests :: "(string \<times> string) list"
  cannotEvict :: bool
  maxMemoryUsage :: int

definition DEFAULT_MAX_MEM_USAGE :: int where
  "DEFAULT_MAX_MEM_USAGE = 1024 * 2 ^ 20"

definition FileCache_new :: "'v FileCache" where
  "FileCache_new =
     \<lparr>fileCache = Cache_new ''file'', lastDigests = [], cannotEvict = False,
      maxMemoryUsage = DEFAULT_MAX_MEM_USAGE\<rparr>"

text \<open>
  \<^verbatim>\<open>shouldFreeMemory\<close> compares the heap size of the process with the threshold. The
  heap size is read from the environment at each call, so it is an argument.
\<close>

definition shouldFreeMemory :: "int \<Rightarrow> ('v, 'z) FileCache_scheme \<Rightarrow> bool" where
  "shouldFreeMemory heapUsed s = (heapUsed > maxMemoryUsage s)"

definition FileCache_maybeFreeMemory ::
  "int \<Rightarrow> ('v, 'z) FileCache_scheme \<Rightarrow> nat \<times> ('v, 'z) FileCache_scheme \<times> event list"
where
  "FileCache_maybeFreeMemory heapUsed s =
     (if \<not> shouldFreeMemory heapUsed s \<or> cannotEvict s then (0, s, [])
      else
        let (dropped, fc, ev) =
              Cache_evict (Some (\<lambda>key. key \<in> fst ` set (lastDigests s))) (fileCache s);
            s1 = s\<lparr>fileCache := fc\<rparr>
        in (dropped, (if dropped = 0 then s1\<lparr>cannotEvict := True\<rparr> else s1), ev))"

text \<open>
  \<^verbatim>\<open>setMaxCacheSize\<close> and \<^verbatim>\<open>putCache\<close> call \<^verbatim>\<open>this.maybeFreeMemory()\<close>,
  which a subclass overrides: the method the object dispatches to is the argument
  \<open>maybeFreeMemory\<close>.

  The message of \<^verbatim>\<open>setMaxCacheSize\<close> shows \<^verbatim>\<open>maxCacheSize >> 20\<close>: the operator
  \<^verbatim>\<open>>>\<close> first reduces its left operand to a signed 32-bit integer and then shifts it
  with sign extension, which is division by \<open>2 ^ 20\<close> rounded down.
\<close>

definition toInt32 :: "int \<Rightarrow> int" where
  "toInt32 x = (x + 2 ^ 31) mod 2 ^ 32 - 2 ^ 31"

definition FileCache_setMaxCacheSize ::
  "(('v, 'z) FileCache_scheme \<Rightarrow> nat \<times> ('v, 'z) FileCache_scheme \<times> event list) \<Rightarrow> int \<Rightarrow>
   ('v, 'z) FileCache_scheme \<Rightarrow> (error + unit) \<times> ('v, 'z) FileCache_scheme \<times> event list"
where
  "FileCache_setMaxCacheSize maybeFreeMemory maxCacheSize s =
     (if maxCacheSize < 0 then (Inl (InvalidArgument maxCacheSize), s, [])
      else
        let (dropped, s1, ev) = maybeFreeMemory (s\<lparr>maxMemoryUsage := maxCacheSize\<rparr>)
        in (Inr (), s1, CacheMaxSize (toInt32 maxCacheSize div 2 ^ 20) # ev))"

definition FileCache_resetMaxCacheSize ::
  "(('v, 'z) FileCache_scheme \<Rightarrow> nat \<times> ('v, 'z) FileCache_scheme \<times> event list) \<Rightarrow>
   ('v, 'z) FileCache_scheme \<Rightarrow> (error + unit) \<times> ('v, 'z) FileCache_scheme \<times> event list"
where
  "FileCache_resetMaxCacheSize maybeFreeMemory s =
     FileCache_setMaxCacheSize maybeFreeMemory DEFAULT_MAX_MEM_USAGE s"

text \<open>
  The loop of \<^verbatim>\<open>updateCache\<close> over \<^verbatim>\<open>digests.entries()\<close>. The argument is the
  \<^verbatim>\<open>Map\<close> of digests (a plain object is first turned into one).
\<close>

fun updateCache_loop ::
  "(string \<times> string) list \<Rightarrow> 'v SourceFileEntry Cache \<Rightarrow> 'v SourceFileEntry Cache \<times> event list"
where
  "updateCache_loop [] c = (c, [])"
| "updateCache_loop ((filePath, newDigest) # rest) c =
     (let (entry, c1, ev1) = Cache_get filePath False c
      in case entry of
           None \<Rightarrow> (let (c2, ev2) = updateCache_loop rest c1 in (c2, ev1 @ ev2))
         | Some e \<Rightarrow>
             if digest e \<noteq> newDigest
             then (let (c2, ev2) = updateCache_loop rest (Cache_delete filePath c1)
                   in (c2, ev1 @ DroppingEntry filePath (digest e) newDigest # ev2))
             else (let (c2, ev2) = updateCache_loop rest c1 in (c2, ev1 @ ev2)))"

definition FileCache_updateCache ::
  "(string \<times> string) list \<Rightarrow> ('v, 'z) FileCache_scheme \<Rightarrow> ('v, 'z) FileCache_scheme \<times> event list"
where
  "FileCache_updateCache digests s =
     (let s1 = s\<lparr>lastDigests := digests, cannotEvict := False\<rparr>;
          (fc, ev) = updateCache_loop digests (fileCache s1)
      in (s1\<lparr>fileCache := fc\<rparr>, UpdatingDigests digests # ev))"

definition FileCache_getLastDigest :: "string \<Rightarrow> ('v, 'z) FileCache_scheme \<Rightarrow> error + string" where
  "FileCache_getLastDigest filePath s =
     (case map_of (lastDigests s) filePath of
        None \<Rightarrow> Inl (MissingDigest filePath (map fst (lastDigests s)))
      | Some d \<Rightarrow>
          if d = [] then Inl (MissingDigest filePath (map fst (lastDigests s)))
          else Inr d)"

definition FileCache_getCache ::
  "string \<Rightarrow> ('v, 'z) FileCache_scheme \<Rightarrow> 'v option \<times> ('v, 'z) FileCache_scheme \<times> event list"
where
  "FileCache_getCache filePath s =
     (let (entry, fc, ev) = Cache_get filePath True (fileCache s)
      in ((case entry of Some e \<Rightarrow> Some (value' e) | None \<Rightarrow> None), s\<lparr>fileCache := fc\<rparr>, ev))"

definition FileCache_putCache ::
  "(('v, 'z) FileCache_scheme \<Rightarrow> nat \<times> ('v, 'z) FileCache_scheme \<times> event list) \<Rightarrow> string \<Rightarrow>
   'v SourceFileEntry \<Rightarrow> ('v, 'z) FileCache_scheme \<Rightarrow> ('v, 'z) FileCache_scheme \<times> event list"
where
  "FileCache_putCache maybeFreeMemory filePath entry s =
     (let (dropped, s1, ev) = maybeFreeMemory s
      in (s1\<lparr>fileCache := Cache_set filePath entry (fileCache s1)\<rparr>,
          ev @ [LoadedFile filePath dropped]))"

definition FileCache_isKnownInput :: "string \<Rightarrow> ('v, 'z) FileCache_scheme \<Rightarrow> bool" where
  "FileCache_isKnownInput filePath s = (filePath \<in> fst ` set (lastDigests s))"

definition FileCache_inCache ::
  "string \<Rightarrow> ('v, 'z) FileCache_scheme \<Rightarrow> bool \<times> ('v, 'z) FileCache_scheme \<times> event list"
where
  "FileCache_inCache filePath s =
     (let (v, s1, ev) = FileCache_getCache filePath s in (v \<noteq> None, s1, ev))"

definition FileCache_resetStats :: "('v, 'z) FileCache_scheme \<Rightarrow> ('v, 'z) FileCache_scheme" where
  "FileCache_resetStats s = s\<lparr>fileCache := Cache_resetStats (fileCache s)\<rparr>"

definition FileCache_getFileCacheKeysForTest :: "('v, 'z) FileCache_scheme \<Rightarrow> string list" where
  "FileCache_getFileCacheKeysForTest s = Cache_keys (fileCache s)"

subsection \<open>class ProgramAndFileCache extends FileCache\<close>

record ('v, 'p) ProgramAndFileCache = "'v FileCache" +
  programCache :: "'p Cache"

definition ProgramAndFileCache_new :: "('v, 'p) ProgramAndFileCache" where
  "ProgramAndFileCache_new =
     \<lparr>fileCache = Cache_new ''file'', lastDigests = [], cannotEvict = False,
      maxMemoryUsage = DEFAULT_MAX_MEM_USAGE, programCache = Cache_new ''program''\<rparr>"

text \<open>
  The override reads the heap size once itself (\<open>heapUsed\<close>) and the inherited method,
  when it is reached, reads it again (\<open>heapUsed'\<close>).
\<close>

definition ProgramAndFileCache_maybeFreeMemory ::
  "int \<Rightarrow> int \<Rightarrow> ('v, 'p) ProgramAndFileCache \<Rightarrow> nat \<times> ('v, 'p) ProgramAndFileCache \<times> event list"
where
  "ProgramAndFileCache_maybeFreeMemory heapUsed heapUsed' s =
     (if \<not> shouldFreeMemory heapUsed s then (0, s, [])
      else
        let (dropped, pc, ev) = Cache_evict None (programCache s);
            s1 = s\<lparr>programCache := pc\<rparr>
        in if dropped > 0 then (dropped, s1, ev)
           else (let (dropped', s2, ev') = FileCache_maybeFreeMemory heapUsed' s1
                 in (dropped', s2, ev @ ev')))"

definition ProgramAndFileCache_getProgram ::
  "string \<Rightarrow> ('v, 'p) ProgramAndFileCache \<Rightarrow> 'p option \<times> ('v, 'p) ProgramAndFileCache \<times> event list"
where
  "ProgramAndFileCache_getProgram target s =
     (let (p, pc, ev) = Cache_get target True (programCache s)
      in (p, s\<lparr>programCache := pc\<rparr>, ev))"

definition ProgramAndFileCache_putProgram ::
  "int \<Rightarrow> int \<Rightarrow> string \<Rightarrow> 'p \<Rightarrow> ('v, 'p) ProgramAndFileCache \<Rightarrow>
   ('v, 'p) ProgramAndFileCache \<times> event list"
where
  "ProgramAndFileCache_putProgram heapUsed heapUsed' target program s =
     (let (dropped, s1, ev) = ProgramAndFileCache_maybeFreeMemory heapUsed heapUsed' s
      in (s1\<lparr>programCache := Cache_set target program (programCache s1)\<rparr>,
          ev @ [LoadedProgram target dropped]))"

definition ProgramAndFileCache_resetStats ::
  "('v, 'p) ProgramAndFileCache \<Rightarrow> ('v, 'p) ProgramAndFileCache"
where
  "ProgramAndFileCache_resetStats s =
     (let s1 = FileCache_resetStats s
      in s1\<lparr>programCache := Cache_resetStats (programCache s1)\<rparr>)"

subsection \<open>The file loaders\<close>

text \<open>
  \<^verbatim>\<open>fs.readFileSync\<close> is a function from paths to the text read, \<open>None\<close> when the
  read throws; \<^verbatim>\<open>ts.createSourceFile\<close> is a function of the logical name, the text and
  the language version; the two readings of \<^verbatim>\<open>Date.now()\<close> are arguments.
\<close>

record ('v, 'z) CachedFileLoader =
  cache :: "('v, 'z) FileCache_scheme"
  totalReadTimeMs :: int

definition CachedFileLoader_fileExists :: "string \<Rightarrow> ('v, 'z) CachedFileLoader \<Rightarrow> bool" where
  "CachedFileLoader_fileExists filePath l = FileCache_isKnownInput filePath (cache l)"

definition CachedFileLoader_loadFile ::
  "(string \<Rightarrow> string option) \<Rightarrow> (string \<Rightarrow> string \<Rightarrow> 'l \<Rightarrow> 'v) \<Rightarrow>
   (('v, 'z) FileCache_scheme \<Rightarrow> nat \<times> ('v, 'z) FileCache_scheme \<times> event list) \<Rightarrow>
   int \<Rightarrow> int \<Rightarrow> string \<Rightarrow> string \<Rightarrow> 'l \<Rightarrow> ('v, 'z) CachedFileLoader \<Rightarrow>
   (error + 'v) \<times> ('v, 'z) CachedFileLoader \<times> event list"
where
  "CachedFileLoader_loadFile readFileSync createSourceFile maybeFreeMemory readStart readEnd
       fileName filePath langVer l =
     (let (sourceFile, c1, ev1) = FileCache_getCache filePath (cache l)
      in case sourceFile of
           Some sf \<Rightarrow> (Inr sf, l\<lparr>cache := c1\<rparr>, ev1)
         | None \<Rightarrow>
             (case readFileSync filePath of
                None \<Rightarrow> (Inl (IOError filePath), l\<lparr>cache := c1\<rparr>, ev1)
              | Some sourceText \<Rightarrow>
                  let sf = createSourceFile fileName sourceText langVer
                  in (case FileCache_getLastDigest filePath c1 of
                        Inl e \<Rightarrow> (Inl e, l\<lparr>cache := c1\<rparr>, ev1)
                      | Inr d \<Rightarrow>
                          let entry = \<lparr>digest = d, value' = sf\<rparr>;
                              (c2, ev2) = FileCache_putCache maybeFreeMemory filePath entry c1
                          in (Inr sf,
                              l\<lparr>cache := c2,
                                totalReadTimeMs := totalReadTimeMs l + (readEnd - readStart)\<rparr>,
                              ev1 @ ev2))))"

definition UncachedFileLoader_loadFile ::
  "(string \<Rightarrow> string option) \<Rightarrow> (string \<Rightarrow> string \<Rightarrow> 'l \<Rightarrow> 'v) \<Rightarrow>
   string \<Rightarrow> string \<Rightarrow> 'l \<Rightarrow> error + 'v"
where
  "UncachedFileLoader_loadFile readFileSync createSourceFile fileName filePath langVer =
     (case readFileSync filePath of
        None \<Rightarrow> Inl (IOError filePath)
      | Some sourceText \<Rightarrow> Inr (createSourceFile fileName sourceText langVer))"

subsection \<open>Clients: sequences of calls\<close>

text \<open>
  A client of a \<^verbatim>\<open>Cache\<close> is a sequence of calls of its methods; the results of the
  calls are dropped and the object is passed on.
\<close>

datatype 'v cache_call =
    CallSet string 'v
  | CallGet string bool
  | CallDelete string
  | CallEvict "(string \<Rightarrow> bool) option"
  | CallKeys
  | CallResetStats

fun Cache_call :: "'v cache_call \<Rightarrow> 'v Cache \<Rightarrow> 'v Cache" where
  "Cache_call (CallSet key v) c = Cache_set key v c"
| "Cache_call (CallGet key updateCache) c = fst (snd (Cache_get key updateCache c))"
| "Cache_call (CallDelete key) c = Cache_delete key c"
| "Cache_call (CallEvict unevictableKeys) c = fst (snd (Cache_evict unevictableKeys c))"
| "Cache_call CallKeys c = c"
| "Cache_call CallResetStats c = Cache_resetStats c"

fun Cache_calls :: "'v cache_call list \<Rightarrow> 'v Cache \<Rightarrow> 'v Cache" where
  "Cache_calls [] c = c"
| "Cache_calls (x # xs) c = Cache_calls xs (Cache_call x c)"

text \<open>
  The same for a \<^verbatim>\<open>FileCache\<close> object (not a subclass, so \<^verbatim>\<open>this.maybeFreeMemory\<close>
  is the method of \<^verbatim>\<open>FileCache\<close>). A call that reads the heap size carries the value it
  reads. The messages of the calls are collected in order.
\<close>

datatype 'v file_cache_call =
    SetMaxCacheSize int int
  | ResetMaxCacheSize int
  | UpdateCache "(string \<times> string) list"
  | GetLastDigest string
  | GetCache string
  | PutCache string "'v SourceFileEntry" int
  | IsKnownInput string
  | InCache string
  | ResetStats
  | MaybeFreeMemory int
  | GetFileCacheKeysForTest

fun FileCache_call :: "'v file_cache_call \<Rightarrow> 'v FileCache \<Rightarrow> 'v FileCache \<times> event list" where
  "FileCache_call (SetMaxCacheSize maxCacheSize heapUsed) s =
     snd (FileCache_setMaxCacheSize (FileCache_maybeFreeMemory heapUsed) maxCacheSize s)"
| "FileCache_call (ResetMaxCacheSize heapUsed) s =
     snd (FileCache_resetMaxCacheSize (FileCache_maybeFreeMemory heapUsed) s)"
| "FileCache_call (UpdateCache digests) s = FileCache_updateCache digests s"
| "FileCache_call (GetLastDigest filePath) s = (s, [])"
| "FileCache_call (GetCache filePath) s = snd (FileCache_getCache filePath s)"
| "FileCache_call (PutCache filePath entry heapUsed) s =
     FileCache_putCache (FileCache_maybeFreeMemory heapUsed) filePath entry s"
| "FileCache_call (IsKnownInput filePath) s = (s, [])"
| "FileCache_call (InCache filePath) s = snd (FileCache_inCache filePath s)"
| "FileCache_call ResetStats s = (FileCache_resetStats s, [])"
| "FileCache_call (MaybeFreeMemory heapUsed) s = snd (FileCache_maybeFreeMemory heapUsed s)"
| "FileCache_call GetFileCacheKeysForTest s = (s, [])"

fun FileCache_calls :: "'v file_cache_call list \<Rightarrow> 'v FileCache \<Rightarrow> 'v FileCache \<times> event list" where
  "FileCache_calls [] s = (s, [])"
| "FileCache_calls (x # xs) s =
     (let (s1, ev1) = FileCache_call x s;
          (s2, ev2) = FileCache_calls xs s1
      in (s2, ev1 @ ev2))"

subsection \<open>Example objects\<close>

text \<open>
  A store of four entries; a file cache holding two files that the current build declares; a
  program-and-file cache holding two files that no build declares and two programs.
\<close>

definition example_store :: "nat Cache" where
  "example_store =
     \<lparr>name = ''file'', cmap = [(''a'', 1), (''b'', 2), (''c'', 3), (''d'', 4)],
      stats = \<lparr>reads = 0, hits = 0, evictions = 0\<rparr>\<rparr>"

definition example_fileCache :: "nat FileCache" where
  "example_fileCache =
     \<lparr>fileCache =
        \<lparr>name = ''file'',
         cmap = [(''/a.ts'', \<lparr>digest = ''d1'', value' = 1\<rparr>),
                 (''/b.ts'', \<lparr>digest = ''d2'', value' = 2\<rparr>)],
         stats = \<lparr>reads = 0, hits = 0, evictions = 0\<rparr>\<rparr>,
      lastDigests = [(''/a.ts'', ''d1''), (''/b.ts'', ''d2'')],
      cannotEvict = False,
      maxMemoryUsage = DEFAULT_MAX_MEM_USAGE\<rparr>"

definition example_programAndFileCache :: "(nat, nat) ProgramAndFileCache" where
  "example_programAndFileCache =
     \<lparr>fileCache =
        \<lparr>name = ''file'',
         cmap = [(''/a.ts'', \<lparr>digest = ''d1'', value' = 1\<rparr>),
                 (''/b.ts'', \<lparr>digest = ''d2'', value' = 2\<rparr>)],
         stats = \<lparr>reads = 0, hits = 0, evictions = 0\<rparr>\<rparr>,
      lastDigests = [],
      cannotEvict = False,
      maxMemoryUsage = DEFAULT_MAX_MEM_USAGE,
      programCache =
        \<lparr>name = ''program'', cmap = [(''//t1'', 10), (''//t2'', 20)],
         stats = \<lparr>reads = 0, hits = 0, evictions = 0\<rparr>\<rparr>\<rparr>"

section \<open>Properties\<close>

subsection \<open>Eviction without a pin set\<close>

text \<open>
  Without a pin set the loop deletes the visited keys one after the other. When the number of
  keys to drop is a natural number \<open>j\<close> it stops after \<open>j\<close> deletions; when it is
  not (half of an odd size), the test \<^verbatim>\<open>numberKeysToDrop === 0\<close> never succeeds and the
  loop deletes every key.
\<close>

lemma evict_loop_None_drop:
  "distinct (map fst m) \<Longrightarrow> evict_loop None (map fst m) (of_nat j) m = drop j m"
proof (induction m arbitrary: j)
  case Nil
  then show ?case by simp
next
  case (Cons p m)
  obtain k v where p: "p = (k, v)" by (cases p)
  from Cons.prems p have notin: "k \<notin> fst ` set m" and dist: "distinct (map fst m)" by auto
  show ?case
  proof (cases j)
    case 0
    then show ?thesis by simp
  next
    case (Suc i)
    have eq: "(of_nat (Suc i) :: rat) - 1 = of_nat i" by simp
    have ne: "(of_nat (Suc i) :: rat) \<noteq> 0" by simp
    from Cons.IH [OF dist, of i] notin p Suc show ?thesis
      by (simp add: AList.delete_id eq ne del: of_nat_Suc)
  qed
qed

lemma evict_loop_None_fraction:
  "distinct (map fst m) \<Longrightarrow> (\<forall>j. n \<noteq> of_nat j) \<Longrightarrow> evict_loop None (map fst m) n m = []"
proof (induction m arbitrary: n)
  case Nil
  then show ?case by simp
next
  case (Cons p m)
  obtain k v where p: "p = (k, v)" by (cases p)
  from Cons.prems p have notin: "k \<notin> fst ` set m" and dist: "distinct (map fst m)" by auto
  have n0: "n \<noteq> 0" using Cons.prems(2) [rule_format, of 0] by simp
  have "\<forall>j. n - 1 \<noteq> of_nat j"
  proof
    fix j
    show "n - 1 \<noteq> of_nat j"
      using Cons.prems(2) [rule_format, of "Suc j"] by (auto simp: algebra_simps)
  qed
  with Cons.IH [OF dist, of "n - 1"] notin p n0 show ?case
    by (simp add: AList.delete_id)
qed

lemma half_odd_not_nat: "(of_nat (2 * j + 1) / 2 :: rat) \<noteq> of_nat i"
proof
  assume "(of_nat (2 * j + 1) / 2 :: rat) = of_nat i"
  then have "(of_nat (2 * j + 1) :: rat) = of_nat (2 * i)" by simp
  then have "2 * j + 1 = 2 * i" using of_nat_eq_iff by blast
  then show False by presburger
qed

lemma Cache_evict_None_even:
  assumes "distinct (map fst (cmap c))" and "length (cmap c) = 2 * j"
  shows "fst (Cache_evict None c) = j"
    and "cmap (fst (snd (Cache_evict None c))) = drop j (cmap c)"
proof -
  have h: "(of_nat (length (cmap c)) / 2 :: rat) = of_nat j" using assms(2) by simp
  have d: "length (cmap c) - (length (cmap c) - j) = j" using assms(2) by simp
  note e = evict_loop_None_drop [OF assms(1), of j]
  have r: "Cache_evict None c =
      (if j = 0 then (0, c, [Evicting (name c)])
       else (j, c\<lparr>cmap := drop j (cmap c),
                    stats := (stats c)\<lparr>evictions := evictions (stats c) + j\<rparr>\<rparr>,
             [Evicting (name c), Evicted j (name c)]))"
    unfolding Cache_evict_def Let_def h e by (simp add: d)
  show "fst (Cache_evict None c) = j" unfolding r by simp
  show "cmap (fst (snd (Cache_evict None c))) = drop j (cmap c)" unfolding r by simp
qed

lemma Cache_evict_None_odd:
  assumes "distinct (map fst (cmap c))" and "length (cmap c) = 2 * j + 1"
  shows "fst (Cache_evict None c) = 2 * j + 1"
    and "cmap (fst (snd (Cache_evict None c))) = []"
proof -
  have h: "\<forall>i. (of_nat (length (cmap c)) / 2 :: rat) \<noteq> of_nat i"
    using half_odd_not_nat [of j] assms(2) by simp
  have n0: "(of_nat (length (cmap c)) / 2 :: rat) \<noteq> 0" using h [rule_format, of 0] by simp
  have e: "evict_loop None (map fst (cmap c)) (of_nat (length (cmap c)) / 2) (cmap c) = []"
    by (rule evict_loop_None_fraction [OF assms(1) h])
  show "fst (Cache_evict None c) = 2 * j + 1"
    using n0 e assms(2) by (simp add: Cache_evict_def Let_def)
  show "cmap (fst (snd (Cache_evict None c))) = []"
    using n0 e by (simp add: Cache_evict_def Let_def)
qed

text \<open>
  Claim C1 (halving): \<^verbatim>\<open>evict()\<close> without pinned keys on a store of size \<open>N > 1\<close>
  should remove \<open>floor (N / 2)\<close> entries, and nothing on a store of size 0 or 1. The code
  computes \<^verbatim>\<open>originalSize / 2\<close> without rounding: on a store of three entries it
  removes all three and returns 3 (not 1), and on a store of one entry it removes that entry
  and returns 1 (not 0).
\<close>

theorem Cache_evict_odd_size_drops_all:
  "Cache_evict None
     \<lparr>name = ''file'', cmap = [(''a'', 1::nat), (''b'', 2), (''c'', 3)],
      stats = \<lparr>reads = 0, hits = 0, evictions = 0\<rparr>\<rparr> =
   (3, \<lparr>name = ''file'', cmap = [], stats = \<lparr>reads = 0, hits = 0, evictions = 3\<rparr>\<rparr>,
    [Evicting ''file'', Evicted 3 ''file''])
   \<and>
   Cache_evict None
     \<lparr>name = ''file'', cmap = [(''a'', 1::nat)],
      stats = \<lparr>reads = 0, hits = 0, evictions = 0\<rparr>\<rparr> =
   (1, \<lparr>name = ''file'', cmap = [], stats = \<lparr>reads = 0, hits = 0, evictions = 1\<rparr>\<rparr>,
    [Evicting ''file'', Evicted 1 ''file''])"
  by (simp add: Cache_evict_def)

subsection \<open>Eviction with a pin set\<close>

lemma evict_loop_pinned_key:
  "has K \<Longrightarrow> map_of (evict_loop (Some has) ks n m) K = map_of m K"
proof (induction ks arbitrary: n m)
  case Nil
  then show ?case by simp
next
  case (Cons k ks)
  show ?case
  proof (cases "has k")
    case True
    with Cons show ?thesis by simp
  next
    case False
    with Cons.prems have "k \<noteq> K" by auto
    with Cons False show ?thesis by simp
  qed
qed

lemma evict_loop_all_pinned:
  "\<forall>k\<in>set ks. has k \<Longrightarrow> evict_loop (Some has) ks n m = m"
  by (induction ks arbitrary: n m) simp_all

lemma Cache_evict_cmap:
  "cmap (fst (snd (Cache_evict u c))) =
     evict_loop u (map fst (cmap c)) (of_nat (length (cmap c)) / 2) (cmap c)"
  by (cases "cmap c") (simp_all add: Cache_evict_def Let_def)

text \<open>
  Claim C4 (pinning): for every store, every pin set and every key \<open>K\<close> of the pin set,
  \<^verbatim>\<open>evict(pinSet)\<close> does not remove \<open>K\<close> (its entry is still found afterwards),
  wherever \<open>K\<close> stands in the recency order; and when every key of the store is in the
  pin set, \<^verbatim>\<open>evict(pinSet)\<close> returns 0 and leaves the store as it was.
\<close>

theorem Cache_evict_pinning:
  "(has K \<longrightarrow>
      map_of (cmap (fst (snd (Cache_evict (Some has) c)))) K = map_of (cmap c) K) \<and>
   ((\<forall>k\<in>set (Cache_keys c). has k) \<longrightarrow>
      fst (Cache_evict (Some has) c) = 0 \<and> fst (snd (Cache_evict (Some has) c)) = c)"
proof (intro conjI impI)
  assume "has K"
  then show "map_of (cmap (fst (snd (Cache_evict (Some has) c)))) K = map_of (cmap c) K"
    by (simp add: Cache_evict_cmap evict_loop_pinned_key)
next
  assume a: "\<forall>k\<in>set (Cache_keys c). has k"
  then have e: "evict_loop (Some has) (map fst (cmap c)) (of_nat (length (cmap c)) / 2) (cmap c) = cmap c"
    by (intro evict_loop_all_pinned) (simp add: Cache_keys_def)
  show "fst (Cache_evict (Some has) c) = 0" 
    unfolding Cache_evict_def Let_def e by simp
  show "fst (snd (Cache_evict (Some has) c)) = c"
    unfolding Cache_evict_def Let_def e by simp
qed

theorem Cache_evict_pinning_witness:
  "map_of (cmap (fst (snd (Cache_evict (Some (\<lambda>k. k \<in> {''a''})) example_store)))) ''a'' = Some 1
   \<and> cmap (fst (snd (Cache_evict (Some (\<lambda>k. k \<in> {''a''})) example_store))) =
       [(''a'', 1), (''d'', 4)]
   \<and> Cache_evict (Some (\<lambda>k. k \<in> {''a'', ''b'', ''c'', ''d''})) example_store =
       (0, example_store, [Evicting ''file'', Evicted 0 ''file''])"
  using Cache_evict_pinning [of "\<lambda>k. k \<in> {''a''}" "''a''" example_store]
    Cache_evict_pinning [of "\<lambda>k. k \<in> {''a'', ''b'', ''c'', ''d''}" "''a''" example_store]
  by (simp add: Cache_evict_def Cache_keys_def example_store_def)

subsection \<open>Digests and stale entries\<close>

lemma Cache_get_no_update:
  "Cache_get key False c =
     (map_of (cmap c) key, c\<lparr>stats := (stats c)\<lparr>reads := reads (stats c) + 1\<rparr>\<rparr>, [])"
  by (simp add: Cache_get_def Let_def)

lemma updateCache_loop_Cons:
  "fst (updateCache_loop ((filePath, newDigest) # rest) c) =
     fst (updateCache_loop rest
       (case map_of (cmap c) filePath of
          None \<Rightarrow> c\<lparr>stats := (stats c)\<lparr>reads := reads (stats c) + 1\<rparr>\<rparr>
        | Some e \<Rightarrow>
            if digest e \<noteq> newDigest
            then Cache_delete filePath (c\<lparr>stats := (stats c)\<lparr>reads := reads (stats c) + 1\<rparr>\<rparr>)
            else c\<lparr>stats := (stats c)\<lparr>reads := reads (stats c) + 1\<rparr>\<rparr>))"
  by (simp add: Cache_get_no_update case_prod_beta split: option.splits)

lemma updateCache_loop_absent:
  "map_of (cmap c) P = None \<Longrightarrow> map_of (cmap (fst (updateCache_loop digests c))) P = None"
proof (induction digests arbitrary: c)
  case Nil
  then show ?case by simp
next
  case (Cons x digests)
  obtain filePath newDigest where x: "x = (filePath, newDigest)" by (cases x)
  let ?c1 = "c\<lparr>stats := (stats c)\<lparr>reads := reads (stats c) + 1\<rparr>\<rparr>"
  have a: "map_of (cmap ?c1) P = None" using Cons.prems by simp
  have b: "map_of (cmap (Cache_delete filePath ?c1)) P = None"
    using Cons.prems by (simp add: Cache_delete_def AList.delete_conv')
  show ?case
    using Cons.IH [OF a] Cons.IH [OF b]
    by (simp add: x updateCache_loop_Cons del: updateCache_loop.simps split: option.splits)
qed

lemma updateCache_loop_same_digest:
  assumes "map_of (cmap c) P = Some e"
    and "\<forall>d. (P, d) \<in> set digests \<longrightarrow> d = digest e"
  shows "map_of (cmap (fst (updateCache_loop digests c))) P = Some e"
  using assms
proof (induction digests arbitrary: c)
  case Nil
  then show ?case by simp
next
  case (Cons x digests)
  obtain filePath newDigest where x: "x = (filePath, newDigest)" by (cases x)
  let ?c1 = "c\<lparr>stats := (stats c)\<lparr>reads := reads (stats c) + 1\<rparr>\<rparr>"
  from Cons.prems(2) have rest: "\<forall>d. (P, d) \<in> set digests \<longrightarrow> d = digest e" by simp
  have a: "map_of (cmap ?c1) P = Some e" using Cons.prems(1) by simp
  show ?case
  proof (cases "filePath = P")
    case True
    with Cons.prems(2) x have "newDigest = digest e" by simp
    with Cons.IH [OF a rest] True Cons.prems(1) show ?thesis
      by (simp add: x updateCache_loop_Cons del: updateCache_loop.simps)
  next
    case False
    then have b: "map_of (cmap (Cache_delete filePath ?c1)) P = Some e"
      using Cons.prems(1) by (simp add: Cache_delete_def)
    show ?thesis
      using Cons.IH [OF a rest] Cons.IH [OF b rest]
      by (simp add: x updateCache_loop_Cons del: updateCache_loop.simps split: option.splits)
  qed
qed

lemma updateCache_loop_other_digest:
  assumes "map_of (cmap c) P = Some e"
    and "(P, D) \<in> set digests" and "D \<noteq> digest e"
  shows "map_of (cmap (fst (updateCache_loop digests c))) P = None"
  using assms
proof (induction digests arbitrary: c)
  case Nil
  then show ?case by simp
next
  case (Cons x digests)
  obtain filePath newDigest where x: "x = (filePath, newDigest)" by (cases x)
  let ?c1 = "c\<lparr>stats := (stats c)\<lparr>reads := reads (stats c) + 1\<rparr>\<rparr>"
  have a: "map_of (cmap ?c1) P = Some e" using Cons.prems(1) by simp
  show ?case
  proof (cases "filePath = P")
    case True
    have gone: "map_of (cmap (Cache_delete P ?c1)) P = None"
      by (simp add: Cache_delete_def AList.delete_conv')
    show ?thesis
    proof (cases "newDigest = digest e")
      case same: True
      with Cons.prems x \<open>filePath = P\<close> have "(P, D) \<in> set digests" by auto
      from Cons.IH [OF a this Cons.prems(3)] same True Cons.prems(1) show ?thesis
        by (simp add: x updateCache_loop_Cons del: updateCache_loop.simps)
    next
      case False
      with updateCache_loop_absent [OF gone, of digests] True Cons.prems(1) show ?thesis
        by (simp add: x updateCache_loop_Cons del: updateCache_loop.simps)
    qed
  next
    case False
    with Cons.prems x have in_rest: "(P, D) \<in> set digests" by auto
    from False have b: "map_of (cmap (Cache_delete filePath ?c1)) P = Some e"
      using Cons.prems(1) by (simp add: Cache_delete_def)
    show ?thesis
      using Cons.IH [OF a in_rest Cons.prems(3)] Cons.IH [OF b in_rest Cons.prems(3)]
      by (simp add: x updateCache_loop_Cons del: updateCache_loop.simps split: option.splits)
  qed
qed

lemma fileCache_updateCache:
  "fileCache (fst (FileCache_updateCache digests s)) = fst (updateCache_loop digests (fileCache s))"
  by (simp add: FileCache_updateCache_def Let_def case_prod_beta)

lemma FileCache_getCache_absent:
  "map_of (cmap (fileCache s)) P = None \<Longrightarrow> fst (FileCache_getCache P s) = None"
  by (simp add: FileCache_getCache_def Cache_get_def Let_def)

text \<open>
  Claim C2 (digest coherency): let the path \<open>P\<close> have a cached entry \<open>e\<close> and let
  \<^verbatim>\<open>updateCache\<close> be called with a map that gives \<open>P\<close> the digest \<open>D\<close>. When
  \<open>D\<close> is the digest of \<open>e\<close> the entry is still cached after the call; when it is
  another digest the entry is deleted by the call itself, and \<^verbatim>\<open>getCache(P)\<close> then
  returns nothing.
\<close>

theorem updateCache_digest_coherency:
  assumes "distinct (map fst digests)"
    and "map_of (cmap (fileCache s)) P = Some e"
    and "map_of digests P = Some D"
  shows "(D = digest e \<longrightarrow>
            map_of (cmap (fileCache (fst (FileCache_updateCache digests s)))) P = Some e) \<and>
         (D \<noteq> digest e \<longrightarrow>
            map_of (cmap (fileCache (fst (FileCache_updateCache digests s)))) P = None \<and>
            fst (FileCache_getCache P (fst (FileCache_updateCache digests s))) = None)"
proof (intro conjI impI)
  from assms(3) have mem: "(P, D) \<in> set digests" by (rule map_of_SomeD)
  {
    assume same: "D = digest e"
    have "\<forall>d. (P, d) \<in> set digests \<longrightarrow> d = digest e"
      using map_of_is_SomeI [OF assms(1)] assms(3) same by fastforce
    with assms(2)
    show "map_of (cmap (fileCache (fst (FileCache_updateCache digests s)))) P = Some e"
      by (simp add: fileCache_updateCache updateCache_loop_same_digest)
  }
  {
    assume other: "D \<noteq> digest e"
    from updateCache_loop_other_digest [OF assms(2) mem other]
    show gone: "map_of (cmap (fileCache (fst (FileCache_updateCache digests s)))) P = None"
      by (simp add: fileCache_updateCache)
    then show "fst (FileCache_getCache P (fst (FileCache_updateCache digests s))) = None"
      by (rule FileCache_getCache_absent)
  }
qed

theorem updateCache_digest_coherency_witness:
  "map_of (cmap (fileCache (fst (FileCache_updateCache
      [(''/a.ts'', ''d9''), (''/b.ts'', ''d2'')] example_fileCache)))) ''/a.ts'' = None
   \<and> fst (FileCache_getCache ''/a.ts'' (fst (FileCache_updateCache
      [(''/a.ts'', ''d9''), (''/b.ts'', ''d2'')] example_fileCache))) = None
   \<and> map_of (cmap (fileCache (fst (FileCache_updateCache
      [(''/a.ts'', ''d9''), (''/b.ts'', ''d2'')] example_fileCache)))) ''/b.ts'' =
       Some \<lparr>digest = ''d2'', value' = 2\<rparr>"
  using updateCache_digest_coherency [of "[(''/a.ts'', ''d9''), (''/b.ts'', ''d2'')]"
      example_fileCache "''/a.ts''" "\<lparr>digest = ''d1'', value' = 1\<rparr>" "''d9''"]
    updateCache_digest_coherency [of "[(''/a.ts'', ''d9''), (''/b.ts'', ''d2'')]"
      example_fileCache "''/b.ts''" "\<lparr>digest = ''d2'', value' = 2\<rparr>" "''d2''"]
  by (simp add: example_fileCache_def)

subsection \<open>Statistics\<close>

lemma Cache_call_stats_invariant:
  "hits (stats c) \<le> reads (stats c) \<Longrightarrow>
   hits (stats (Cache_call x c)) \<le> reads (stats (Cache_call x c))"
  by (cases x)
    (simp_all add: Cache_set_def Cache_get_def Cache_delete_def Cache_evict_def
      Cache_resetStats_def Let_def split: option.splits)

lemma Cache_calls_stats_invariant:
  "hits (stats c) \<le> reads (stats c) \<Longrightarrow>
   hits (stats (Cache_calls xs c)) \<le> reads (stats (Cache_calls xs c))"
  by (induction xs arbitrary: c) (simp_all add: Cache_call_stats_invariant)

text \<open>
  Claim C8 (statistics): after every step of every sequence of calls on a new store,
  \<open>hits \<le> reads\<close>; \<^verbatim>\<open>resetStats\<close> sets the three counters to zero and leaves
  the entries as they are, so a \<^verbatim>\<open>get\<close> of a stored key right after it is a hit.
\<close>

theorem Cache_stats_invariant:
  "(\<forall>i. hits (stats (Cache_calls (take i calls) (Cache_new n)))
          \<le> reads (stats (Cache_calls (take i calls) (Cache_new n)))) \<and>
   stats (Cache_resetStats c) = \<lparr>reads = 0, hits = 0, evictions = 0\<rparr> \<and>
   cmap (Cache_resetStats c) = cmap c \<and>
   (map_of (cmap c) key = Some v \<longrightarrow>
      fst (Cache_get key True (Cache_resetStats c)) = Some v \<and>
      stats (fst (snd (Cache_get key True (Cache_resetStats c)))) =
        \<lparr>reads = 1, hits = 1, evictions = 0\<rparr>)"
proof (intro conjI allI impI)
  fix i
  show "hits (stats (Cache_calls (take i calls) (Cache_new n)))
          \<le> reads (stats (Cache_calls (take i calls) (Cache_new n)))"
    by (rule Cache_calls_stats_invariant) (simp add: Cache_new_def)
qed (simp_all add: Cache_resetStats_def Cache_get_def Let_def)

theorem Cache_stats_invariant_witness:
  "stats (Cache_calls (take 4 [CallSet ''a'' (1::nat), CallGet ''a'' True, CallGet ''b'' True,
       CallGet ''a'' False, CallEvict None]) (Cache_new ''file'')) =
     \<lparr>reads = 3, hits = 1, evictions = 0\<rparr>
   \<and> fst (Cache_get ''a'' True (Cache_resetStats
       \<lparr>name = ''file'', cmap = [(''a'', 1::nat)],
        stats = \<lparr>reads = 3, hits = 1, evictions = 0\<rparr>\<rparr>)) = Some 1
   \<and> stats (fst (snd (Cache_get ''a'' True (Cache_resetStats
       \<lparr>name = ''file'', cmap = [(''a'', 1::nat)],
        stats = \<lparr>reads = 3, hits = 1, evictions = 0\<rparr>\<rparr>)))) =
     \<lparr>reads = 1, hits = 1, evictions = 0\<rparr>"
  using Cache_stats_invariant [of
      "[CallSet ''a'' (1::nat), CallGet ''a'' True, CallGet ''b'' True,
        CallGet ''a'' False, CallEvict None]" "''file''"
      "\<lparr>name = ''file'', cmap = [(''a'', 1::nat)],
        stats = \<lparr>reads = 3, hits = 1, evictions = 0\<rparr>\<rparr>" "''a''" 1]
  by (simp add: Cache_new_def Cache_set_def Cache_get_def Cache_resetStats_def
      numeral_eq_Suc)

subsection \<open>The fixed-point guard of the file cache\<close>

lemma FileCache_maybeFreeMemory_guarded:
  "cannotEvict s \<Longrightarrow> FileCache_maybeFreeMemory heapUsed s = (0, s, [])"
  by (simp add: FileCache_maybeFreeMemory_def)

lemma FileCache_call_guarded:
  assumes "cannotEvict s" and "\<forall>digests. x \<noteq> UpdateCache digests"
  shows "cannotEvict (fst (FileCache_call x s)) \<and>
         (\<forall>n. Evicting n \<notin> set (snd (FileCache_call x s)))"
proof (cases x)
  case (UpdateCache digests)
  with assms(2) show ?thesis by simp
next
  case (SetMaxCacheSize maxCacheSize heapUsed)
  with assms(1) show ?thesis
    by (simp add: FileCache_setMaxCacheSize_def FileCache_maybeFreeMemory_guarded)
next
  case (ResetMaxCacheSize heapUsed)
  with assms(1) show ?thesis
    by (simp add: FileCache_resetMaxCacheSize_def FileCache_setMaxCacheSize_def
        FileCache_maybeFreeMemory_guarded)
next
  case (GetCache filePath)
  with assms(1) show ?thesis
    by (simp add: FileCache_getCache_def Cache_get_def Let_def split: option.splits)
next
  case (PutCache filePath entry heapUsed)
  with assms(1) show ?thesis
    by (simp add: FileCache_putCache_def FileCache_maybeFreeMemory_guarded)
next
  case (InCache filePath)
  with assms(1) show ?thesis
    by (simp add: FileCache_inCache_def FileCache_getCache_def Cache_get_def Let_def
        split: option.splits)
next
  case (MaybeFreeMemory heapUsed)
  with assms(1) show ?thesis by (simp add: FileCache_maybeFreeMemory_guarded)
qed (use assms(1) in \<open>simp_all add: FileCache_resetStats_def\<close>)

lemma FileCache_calls_guarded:
  assumes "cannotEvict s" and "\<forall>x\<in>set calls. \<forall>digests. x \<noteq> UpdateCache digests"
  shows "cannotEvict (fst (FileCache_calls calls s)) \<and>
         (\<forall>n. Evicting n \<notin> set (snd (FileCache_calls calls s)))"
  using assms
proof (induction calls arbitrary: s)
  case Nil
  then show ?case by simp
next
  case (Cons x calls)
  from Cons.prems(2) have x: "\<forall>digests. x \<noteq> UpdateCache digests"
    and rest: "\<forall>x\<in>set calls. \<forall>digests. x \<noteq> UpdateCache digests" by simp_all
  note step = FileCache_call_guarded [OF Cons.prems(1) x]
  from step have "cannotEvict (fst (FileCache_call x s))" by simp
  from Cons.IH [OF this rest] step show ?case
    by (simp add: case_prod_beta)
qed

text \<open>
  Claim C5 (fixed-point guard): a \<^verbatim>\<open>maybeFreeMemory\<close> pass that runs the eviction and
  removes nothing sets \<^verbatim>\<open>cannotEvict\<close>. From a state with the flag set, through every
  sequence of calls without \<^verbatim>\<open>updateCache\<close>, no eviction scan is started (no call
  sends the message that opens \<^verbatim>\<open>evict\<close>), the flag stays set, and
  \<^verbatim>\<open>maybeFreeMemory\<close> returns 0 and leaves the object as it is, whatever the heap
  size. \<^verbatim>\<open>updateCache\<close> always clears the flag.
\<close>

theorem FileCache_cannotEvict_guard:
  "(shouldFreeMemory heapUsed s \<and> \<not> cannotEvict s \<and>
      fst (FileCache_maybeFreeMemory heapUsed s) = 0 \<longrightarrow>
      cannotEvict (fst (snd (FileCache_maybeFreeMemory heapUsed s)))) \<and>
   (cannotEvict s \<and> (\<forall>x\<in>set calls. \<forall>digests. x \<noteq> UpdateCache digests) \<longrightarrow>
      (\<forall>n. Evicting n \<notin> set (snd (FileCache_calls calls s))) \<and>
      cannotEvict (fst (FileCache_calls calls s)) \<and>
      (\<forall>h. FileCache_maybeFreeMemory h (fst (FileCache_calls calls s)) =
         (0, fst (FileCache_calls calls s), []))) \<and>
   \<not> cannotEvict (fst (FileCache_updateCache digests s))"
proof (intro conjI impI allI)
  assume "shouldFreeMemory heapUsed s \<and> \<not> cannotEvict s \<and>
      fst (FileCache_maybeFreeMemory heapUsed s) = 0"
  then show "cannotEvict (fst (snd (FileCache_maybeFreeMemory heapUsed s)))"
    by (auto simp add: FileCache_maybeFreeMemory_def case_prod_beta Let_def)
next
  assume a: "cannotEvict s \<and> (\<forall>x\<in>set calls. \<forall>digests. x \<noteq> UpdateCache digests)"
  then have g: "cannotEvict (fst (FileCache_calls calls s)) \<and>
         (\<forall>n. Evicting n \<notin> set (snd (FileCache_calls calls s)))"
    by (intro FileCache_calls_guarded) simp_all
  from g show "cannotEvict (fst (FileCache_calls calls s))" by simp
  from g show "\<And>n. Evicting n \<notin> set (snd (FileCache_calls calls s))" by simp
  from g show "\<And>h. FileCache_maybeFreeMemory h (fst (FileCache_calls calls s)) =
         (0, fst (FileCache_calls calls s), [])"
    by (simp add: FileCache_maybeFreeMemory_guarded)
next
  show "\<not> cannotEvict (fst (FileCache_updateCache digests s))"
    by (simp add: FileCache_updateCache_def Let_def case_prod_beta)
qed

theorem FileCache_cannotEvict_guard_witness:
  "cannotEvict (fst (snd (FileCache_maybeFreeMemory 2 (example_fileCache\<lparr>maxMemoryUsage := 1\<rparr>))))
   \<and> FileCache_calls [MaybeFreeMemory 2, GetCache ''/a.ts'', MaybeFreeMemory 3]
       (example_fileCache\<lparr>maxMemoryUsage := 1, cannotEvict := True\<rparr>) =
     (\<lparr>fileCache =
         \<lparr>name = ''file'',
          cmap = [(''/b.ts'', \<lparr>digest = ''d2'', value' = 2\<rparr>),
                  (''/a.ts'', \<lparr>digest = ''d1'', value' = 1\<rparr>)],
          stats = \<lparr>reads = 1, hits = 1, evictions = 0\<rparr>\<rparr>,
       lastDigests = [(''/a.ts'', ''d1''), (''/b.ts'', ''d2'')],
       cannotEvict = True,
       maxMemoryUsage = 1\<rparr>,
      [CacheHit ''file'' ''/a.ts''])
   \<and> \<not> cannotEvict (fst (FileCache_updateCache [(''/a.ts'', ''d1'')]
       (example_fileCache\<lparr>maxMemoryUsage := 1, cannotEvict := True\<rparr>)))"
  using FileCache_cannotEvict_guard [of 2 "example_fileCache\<lparr>maxMemoryUsage := 1\<rparr>" "[]" "[]"]
    FileCache_cannotEvict_guard [of 2 "example_fileCache\<lparr>maxMemoryUsage := 1, cannotEvict := True\<rparr>"
      "[MaybeFreeMemory 2, GetCache ''/a.ts'', MaybeFreeMemory 3]" "[(''/a.ts'', ''d1'')]"]
  by (simp add: FileCache_maybeFreeMemory_def shouldFreeMemory_def Cache_evict_def
      FileCache_getCache_def Cache_get_def example_fileCache_def)

subsection \<open>Programs are evicted before files\<close>

lemma Cache_evict_None_nonempty:
  "cmap c \<noteq> [] \<Longrightarrow> 0 < fst (Cache_evict None c)"
proof -
  assume ne: "cmap c \<noteq> []"
  then obtain k v m where c: "cmap c = (k, v) # m" by (cases "cmap c") auto
  have "length (evict_loop None ks n m') \<le> length m'" for ks n and m' :: "(string \<times> 'a) list"
  proof (induction ks arbitrary: n m')
    case Nil
    then show ?case by simp
  next
    case (Cons a ks)
    have "length (evict_loop None ks (n - 1) (AList.delete a m')) \<le> length (AList.delete a m')"
      by (rule Cons.IH)
    also have "\<dots> \<le> length m'" by (rule AList.length_delete_le)
    finally show ?case by simp
  qed
  from this [of "map fst m" "of_nat (length (cmap c)) / 2 - 1" "AList.delete k m"]
  have "length (evict_loop None (map fst m) (of_nat (length (cmap c)) / 2 - 1) (AList.delete k m))
          \<le> length m"
    using AList.length_delete_le [of k m] by linarith
  with c show ?thesis
    by (simp add: Cache_evict_def Let_def)
qed

text \<open>
  Claim C3 (programs before files): when \<^verbatim>\<open>maybeFreeMemory\<close> of a
  \<^verbatim>\<open>ProgramAndFileCache\<close> runs under memory pressure, the eviction of the program store
  comes first (its messages open the list of messages, and the program store afterwards is the
  evicted one). When it dropped at least one entry, that count is returned and nothing but the
  program store has changed: the file store, the digests and the flag are as before. Only when
  it dropped nothing does the call go on to the inherited method, whose result it returns; so a
  file store that has changed means that the program eviction dropped nothing. By
  \<open>Cache_evict_None_nonempty\<close> a program store that is not empty always loses an entry.
\<close>

theorem ProgramAndFileCache_eviction_order:
  assumes "shouldFreeMemory heapUsed s"
  shows "programCache (fst (snd (ProgramAndFileCache_maybeFreeMemory heapUsed heapUsed' s))) =
           fst (snd (Cache_evict None (programCache s))) \<and>
         take (length (snd (snd (Cache_evict None (programCache s)))))
             (snd (snd (ProgramAndFileCache_maybeFreeMemory heapUsed heapUsed' s))) =
           snd (snd (Cache_evict None (programCache s))) \<and>
         (0 < fst (Cache_evict None (programCache s)) \<longrightarrow>
            ProgramAndFileCache_maybeFreeMemory heapUsed heapUsed' s =
              (fst (Cache_evict None (programCache s)),
               s\<lparr>programCache := fst (snd (Cache_evict None (programCache s)))\<rparr>,
               snd (snd (Cache_evict None (programCache s))))) \<and>
         (fst (Cache_evict None (programCache s)) = 0 \<longrightarrow>
            ProgramAndFileCache_maybeFreeMemory heapUsed heapUsed' s =
              (fst (FileCache_maybeFreeMemory heapUsed'
                 (s\<lparr>programCache := fst (snd (Cache_evict None (programCache s)))\<rparr>)),
               fst (snd (FileCache_maybeFreeMemory heapUsed'
                 (s\<lparr>programCache := fst (snd (Cache_evict None (programCache s)))\<rparr>))),
               snd (snd (Cache_evict None (programCache s))) @
               snd (snd (FileCache_maybeFreeMemory heapUsed'
                 (s\<lparr>programCache := fst (snd (Cache_evict None (programCache s)))\<rparr>))))) \<and>
         (fileCache (fst (snd (ProgramAndFileCache_maybeFreeMemory heapUsed heapUsed' s)))
            \<noteq> fileCache s \<longrightarrow> fst (Cache_evict None (programCache s)) = 0)"
proof -
  have pc: "programCache (fst (snd (FileCache_maybeFreeMemory h t))) = programCache t"
    for h and t :: "('a, 'b) ProgramAndFileCache"
    by (simp add: FileCache_maybeFreeMemory_def case_prod_beta Let_def)
  show ?thesis
    using assms
    by (cases "fst (Cache_evict None (programCache s)) = 0")
      (simp_all add: ProgramAndFileCache_maybeFreeMemory_def case_prod_beta Let_def pc)
qed

theorem ProgramAndFileCache_eviction_order_witness:
  "ProgramAndFileCache_maybeFreeMemory 2 2 (example_programAndFileCache\<lparr>maxMemoryUsage := 1\<rparr>) =
     (1,
      example_programAndFileCache
        \<lparr>maxMemoryUsage := 1,
         programCache :=
           \<lparr>name = ''program'', cmap = [(''//t2'', 20)],
            stats = \<lparr>reads = 0, hits = 0, evictions = 1\<rparr>\<rparr>\<rparr>,
      [Evicting ''program'', Evicted 1 ''program''])
   \<and> ProgramAndFileCache_maybeFreeMemory 2 2
       (example_programAndFileCache\<lparr>maxMemoryUsage := 1, programCache := Cache_new ''program''\<rparr>) =
     (1,
      example_programAndFileCache
        \<lparr>maxMemoryUsage := 1, programCache := Cache_new ''program'',
         fileCache :=
           \<lparr>name = ''file'', cmap = [(''/b.ts'', \<lparr>digest = ''d2'', value' = 2\<rparr>)],
            stats = \<lparr>reads = 0, hits = 0, evictions = 1\<rparr>\<rparr>\<rparr>,
      [Evicting ''program'', Evicting ''file'', Evicted 1 ''file''])"
proof -
  let ?s = "example_programAndFileCache\<lparr>maxMemoryUsage := 1\<rparr>"
  let ?t = "example_programAndFileCache\<lparr>maxMemoryUsage := 1, programCache := Cache_new ''program''\<rparr>"
  have hs: "shouldFreeMemory 2 ?s" and ht: "shouldFreeMemory 2 ?t"
    by (simp_all add: shouldFreeMemory_def)
  have es: "Cache_evict None (programCache ?s) =
      (1, \<lparr>name = ''program'', cmap = [(''//t2'', 20)],
            stats = \<lparr>reads = 0, hits = 0, evictions = 1\<rparr>\<rparr>,
       [Evicting ''program'', Evicted 1 ''program''])"
    by (simp add: Cache_evict_def example_programAndFileCache_def)
  have et: "Cache_evict None (programCache ?t) = (0, Cache_new ''program'', [Evicting ''program''])"
    by (simp add: Cache_evict_def Cache_new_def)
  have ft: "FileCache_maybeFreeMemory 2 ?t =
      (1, ?t\<lparr>fileCache :=
           \<lparr>name = ''file'', cmap = [(''/b.ts'', \<lparr>digest = ''d2'', value' = 2\<rparr>)],
            stats = \<lparr>reads = 0, hits = 0, evictions = 1\<rparr>\<rparr>\<rparr>,
       [Evicting ''file'', Evicted 1 ''file''])"
    by (simp add: FileCache_maybeFreeMemory_def shouldFreeMemory_def Cache_evict_def
        example_programAndFileCache_def)
  from ProgramAndFileCache_eviction_order [OF hs, of 2]
  have "ProgramAndFileCache_maybeFreeMemory 2 2 ?s =
      (fst (Cache_evict None (programCache ?s)),
       ?s\<lparr>programCache := fst (snd (Cache_evict None (programCache ?s)))\<rparr>,
       snd (snd (Cache_evict None (programCache ?s))))"
    unfolding es by simp
  then have a: "ProgramAndFileCache_maybeFreeMemory 2 2 ?s =
     (1, ?s\<lparr>programCache :=
           \<lparr>name = ''program'', cmap = [(''//t2'', 20)],
            stats = \<lparr>reads = 0, hits = 0, evictions = 1\<rparr>\<rparr>\<rparr>,
      [Evicting ''program'', Evicted 1 ''program''])"
    unfolding es by simp
  have same: "?t\<lparr>programCache := Cache_new ''program''\<rparr> = ?t" by simp
  from ProgramAndFileCache_eviction_order [OF ht, of 2]
  have b: "ProgramAndFileCache_maybeFreeMemory 2 2 ?t =
     (1, ?t\<lparr>fileCache :=
           \<lparr>name = ''file'', cmap = [(''/b.ts'', \<lparr>digest = ''d2'', value' = 2\<rparr>)],
            stats = \<lparr>reads = 0, hits = 0, evictions = 1\<rparr>\<rparr>\<rparr>,
      [Evicting ''program'', Evicting ''file'', Evicted 1 ''file''])"
    unfolding et fst_conv snd_conv same ft by simp
  from a b show ?thesis by simp
qed

subsection \<open>The digest of a declared input\<close>

lemma lastDigests_updateCache:
  "lastDigests (fst (FileCache_updateCache digests s)) = digests"
  by (simp add: FileCache_updateCache_def Let_def case_prod_beta)

text \<open>
  Claim C6, as stated, says that \<^verbatim>\<open>getLastDigest\<close> fails exactly for the paths that the
  last \<^verbatim>\<open>updateCache\<close> did not register. The test in the code is \<^verbatim>\<open>!digest\<close>,
  which also holds for the empty string: a path registered with the empty digest is a known
  input, and \<^verbatim>\<open>getLastDigest\<close> fails for it.
\<close>

theorem getLastDigest_registered_empty_digest:
  "FileCache_isKnownInput ''/a.ts''
     (fst (FileCache_updateCache [(''/a.ts'', [])] (FileCache_new :: nat FileCache))) \<and>
   FileCache_getLastDigest ''/a.ts''
     (fst (FileCache_updateCache [(''/a.ts'', [])] (FileCache_new :: nat FileCache))) =
     Inl (MissingDigest ''/a.ts'' [''/a.ts''])"
  by (simp add: FileCache_isKnownInput_def FileCache_getLastDigest_def lastDigests_updateCache)

text \<open>
  Claim C6, amended: after \<^verbatim>\<open>updateCache(digests)\<close>, \<^verbatim>\<open>getLastDigest(path)\<close> fails
  if and only if \<open>path\<close> is not a key of \<open>digests\<close> or its digest there is the empty
  string; the failure is the missing-digest error, which carries the path and the registered
  paths. For every path registered with a digest that is not empty it returns that digest.
\<close>

theorem getLastDigest_after_updateCache:
  "(isl (FileCache_getLastDigest filePath (fst (FileCache_updateCache digests s))) \<longleftrightarrow>
      filePath \<notin> fst ` set digests \<or> map_of digests filePath = Some []) \<and>
   (filePath \<notin> fst ` set digests \<or> map_of digests filePath = Some [] \<longrightarrow>
      FileCache_getLastDigest filePath (fst (FileCache_updateCache digests s)) =
        Inl (MissingDigest filePath (map fst digests))) \<and>
   (\<forall>d. map_of digests filePath = Some d \<and> d \<noteq> [] \<longrightarrow>
      FileCache_getLastDigest filePath (fst (FileCache_updateCache digests s)) = Inr d)"
proof -
  have none: "map_of digests filePath = None \<longleftrightarrow> filePath \<notin> fst ` set digests"
    by (rule map_of_eq_None_iff)
  show ?thesis
    by (cases "map_of digests filePath")
      (auto simp add: FileCache_getLastDigest_def lastDigests_updateCache none [symmetric])
qed

theorem getLastDigest_after_updateCache_witness:
  "FileCache_getLastDigest ''/c.ts''
     (fst (FileCache_updateCache [(''/a.ts'', ''d9''), (''/b.ts'', [])] example_fileCache)) =
     Inl (MissingDigest ''/c.ts'' [''/a.ts'', ''/b.ts''])
   \<and> FileCache_getLastDigest ''/b.ts''
     (fst (FileCache_updateCache [(''/a.ts'', ''d9''), (''/b.ts'', [])] example_fileCache)) =
     Inl (MissingDigest ''/b.ts'' [''/a.ts'', ''/b.ts''])
   \<and> FileCache_getLastDigest ''/a.ts''
     (fst (FileCache_updateCache [(''/a.ts'', ''d9''), (''/b.ts'', [])] example_fileCache)) =
     Inr ''d9''"
  using getLastDigest_after_updateCache
      [of "''/c.ts''" "[(''/a.ts'', ''d9''), (''/b.ts'', [])]" example_fileCache]
    getLastDigest_after_updateCache
      [of "''/b.ts''" "[(''/a.ts'', ''d9''), (''/b.ts'', [])]" example_fileCache]
    getLastDigest_after_updateCache
      [of "''/a.ts''" "[(''/a.ts'', ''d9''), (''/b.ts'', [])]" example_fileCache]
  by simp

subsection \<open>The cached and the uncached loader\<close>

lemma FileCache_getCache_miss:
  "map_of (cmap (fileCache s)) filePath = None \<Longrightarrow>
   FileCache_getCache filePath s =
     (None,
      s\<lparr>fileCache := (fileCache s)\<lparr>stats := (stats (fileCache s))
          \<lparr>reads := reads (stats (fileCache s)) + 1\<rparr>\<rparr>\<rparr>,
      [CacheMiss (name (fileCache s)) filePath])"
  by (simp add: FileCache_getCache_def Cache_get_def Let_def)

lemma FileCache_getCache_hit:
  "map_of (cmap (fileCache s)) filePath = Some e \<Longrightarrow>
   FileCache_getCache filePath s =
     (Some (value' e),
      s\<lparr>fileCache := (fileCache s)
          \<lparr>stats := (stats (fileCache s))
             \<lparr>reads := reads (stats (fileCache s)) + 1, hits := hits (stats (fileCache s)) + 1\<rparr>,
           cmap := AList.update filePath e (AList.delete filePath (cmap (fileCache s)))\<rparr>\<rparr>,
      [CacheHit (name (fileCache s)) filePath])"
  by (simp add: FileCache_getCache_def Cache_get_def Let_def)

text \<open>
  Claim C9, as stated, says that \<^verbatim>\<open>loadFile\<close> of the cached loader, called for a path
  with no cached entry that the current digests do not register, reads and parses the file and
  then fails with the missing-digest error. The read comes first, so when the read itself
  throws (the file \<^verbatim>\<open>/d.ts\<close> is not on the disk) the call fails with the error of the
  read and never reaches the digest lookup.
\<close>

theorem CachedFileLoader_loadFile_unreadable_unregistered:
  "map_of (cmap (fileCache example_fileCache)) ''/d.ts'' = None \<and>
   ''/d.ts'' \<notin> fst ` set (lastDigests example_fileCache) \<and>
   fst (CachedFileLoader_loadFile (\<lambda>p. if p = ''/c.ts'' then Some ''let x;'' else None)
          (\<lambda>fileName sourceText langVer. length sourceText) (FileCache_maybeFreeMemory 0) 10 12
          ''d.ts'' ''/d.ts'' (5::nat) \<lparr>cache = example_fileCache, totalReadTimeMs = 0\<rparr>) =
     Inl (IOError ''/d.ts'') \<and>
   (\<forall>paths. fst (CachedFileLoader_loadFile (\<lambda>p. if p = ''/c.ts'' then Some ''let x;'' else None)
          (\<lambda>fileName sourceText langVer. length sourceText) (FileCache_maybeFreeMemory 0) 10 12
          ''d.ts'' ''/d.ts'' (5::nat) \<lparr>cache = example_fileCache, totalReadTimeMs = 0\<rparr>) \<noteq>
     Inl (MissingDigest ''/d.ts'' paths))"
  by (simp add: CachedFileLoader_loadFile_def FileCache_getCache_def Cache_get_def
      example_fileCache_def)

text \<open>
  Claim C9, amended: let \<^verbatim>\<open>loadFile\<close> of the cached loader be called for a path with no
  cached entry that the current digests do not register. When the disk read succeeds, the call
  reads and parses first and then fails with the missing-digest error; when the disk read
  throws, the call fails with the error of the read. Either way the failed call stores nothing:
  the entries of the file store are as before, and the only message is the cache miss.
\<close>

theorem CachedFileLoader_loadFile_unregistered:
  assumes "map_of (cmap (fileCache (cache l))) filePath = None"
    and "filePath \<notin> fst ` set (lastDigests (cache l))"
  shows "(readFileSync filePath = None \<longrightarrow>
            fst (CachedFileLoader_loadFile readFileSync createSourceFile maybeFreeMemory
                   readStart readEnd fileName filePath langVer l) = Inl (IOError filePath)) \<and>
         (\<forall>sourceText. readFileSync filePath = Some sourceText \<longrightarrow>
            fst (CachedFileLoader_loadFile readFileSync createSourceFile maybeFreeMemory
                   readStart readEnd fileName filePath langVer l) =
              Inl (MissingDigest filePath (map fst (lastDigests (cache l))))) \<and>
         cmap (fileCache (cache (fst (snd (CachedFileLoader_loadFile readFileSync createSourceFile
                   maybeFreeMemory readStart readEnd fileName filePath langVer l))))) =
           cmap (fileCache (cache l)) \<and>
         snd (snd (CachedFileLoader_loadFile readFileSync createSourceFile
                   maybeFreeMemory readStart readEnd fileName filePath langVer l)) =
           [CacheMiss (name (fileCache (cache l))) filePath]"
proof -
  from assms(2) have unknown: "map_of (lastDigests (cache l)) filePath = None"
    by (simp add: map_of_eq_None_iff)
  show ?thesis
    by (cases "readFileSync filePath")
      (simp_all add: CachedFileLoader_loadFile_def FileCache_getCache_miss [OF assms(1)]
        FileCache_getLastDigest_def unknown Let_def)
qed

theorem CachedFileLoader_loadFile_unregistered_witness:
  "fst (CachedFileLoader_loadFile (\<lambda>p. if p = ''/c.ts'' then Some ''let x;'' else None)
     (\<lambda>fileName sourceText langVer. length sourceText) (FileCache_maybeFreeMemory 0) 10 12
     ''c.ts'' ''/c.ts'' (5::nat) \<lparr>cache = example_fileCache, totalReadTimeMs = 0\<rparr>) =
     Inl (MissingDigest ''/c.ts'' [''/a.ts'', ''/b.ts''])
   \<and> fst (CachedFileLoader_loadFile (\<lambda>p. if p = ''/c.ts'' then Some ''let x;'' else None)
     (\<lambda>fileName sourceText langVer. length sourceText) (FileCache_maybeFreeMemory 0) 10 12
     ''d.ts'' ''/d.ts'' (5::nat) \<lparr>cache = example_fileCache, totalReadTimeMs = 0\<rparr>) =
     Inl (IOError ''/d.ts'')
   \<and> cmap (fileCache (cache (fst (snd (CachedFileLoader_loadFile
     (\<lambda>p. if p = ''/c.ts'' then Some ''let x;'' else None)
     (\<lambda>fileName sourceText langVer. length sourceText) (FileCache_maybeFreeMemory 0) 10 12
     ''c.ts'' ''/c.ts'' (5::nat) \<lparr>cache = example_fileCache, totalReadTimeMs = 0\<rparr>))))) =
     cmap (fileCache example_fileCache)"
  using CachedFileLoader_loadFile_unregistered
      [of "\<lparr>cache = example_fileCache, totalReadTimeMs = 0\<rparr>" "''/c.ts''"
        "\<lambda>p. if p = ''/c.ts'' then Some ''let x;'' else None"
        "\<lambda>fileName sourceText langVer. length sourceText" "FileCache_maybeFreeMemory 0"
        10 12 "''c.ts''" "5::nat"]
    CachedFileLoader_loadFile_unregistered
      [of "\<lparr>cache = example_fileCache, totalReadTimeMs = 0\<rparr>" "''/d.ts''"
        "\<lambda>p. if p = ''/c.ts'' then Some ''let x;'' else None"
        "\<lambda>fileName sourceText langVer. length sourceText" "FileCache_maybeFreeMemory 0"
        10 12 "''d.ts''" "5::nat"]
  by (simp add: example_fileCache_def)

text \<open>
  Claim C7, as stated, says that for every path registered via \<^verbatim>\<open>updateCache\<close> the two
  loaders return the same parsed file for the same disk contents. For a path registered with
  the empty digest and not yet cached, the uncached loader returns the parsed file and the
  cached loader fails with the missing-digest error.
\<close>

theorem loadFile_cached_differs_on_empty_digest:
  "FileCache_isKnownInput ''/a.ts''
     (fst (FileCache_updateCache [(''/a.ts'', [])] (FileCache_new :: string FileCache))) \<and>
   fst (CachedFileLoader_loadFile (\<lambda>p. Some ''let x;'') (\<lambda>fileName sourceText langVer. sourceText)
          (FileCache_maybeFreeMemory 0) 10 12 ''a.ts'' ''/a.ts'' (5::nat)
          \<lparr>cache = fst (FileCache_updateCache [(''/a.ts'', [])] (FileCache_new :: string FileCache)),
           totalReadTimeMs = 0\<rparr>) =
     Inl (MissingDigest ''/a.ts'' [''/a.ts'']) \<and>
   UncachedFileLoader_loadFile (\<lambda>p. Some ''let x;'') (\<lambda>fileName sourceText langVer. sourceText)
     ''a.ts'' ''/a.ts'' (5::nat) = Inr ''let x;''"
  by (simp add: FileCache_isKnownInput_def lastDigests_updateCache CachedFileLoader_loadFile_def
      UncachedFileLoader_loadFile_def FileCache_getLastDigest_def FileCache_getCache_def
      Cache_get_def FileCache_updateCache_def FileCache_new_def Cache_new_def)

text \<open>
  The cache is keyed by the path alone. An entry stored by a call with one language version is
  what a later call with another language version returns, where the uncached loader parses
  again.
\<close>

lemma loadFile_cache_keyed_by_path_only:
  "fst (CachedFileLoader_loadFile (\<lambda>p. Some ''let x;'')
          (\<lambda>fileName sourceText langVer. (sourceText, langVer))
          (FileCache_maybeFreeMemory 0) 14 15 ''a.ts'' ''/a.ts'' (6::nat)
          (fst (snd (CachedFileLoader_loadFile (\<lambda>p. Some ''let x;'')
             (\<lambda>fileName sourceText langVer. (sourceText, langVer))
             (FileCache_maybeFreeMemory 0) 10 12 ''a.ts'' ''/a.ts'' (5::nat)
             \<lparr>cache = fst (FileCache_updateCache [(''/a.ts'', ''d1'')] FileCache_new),
              totalReadTimeMs = 0\<rparr>)))) =
     Inr (''let x;'', 5) \<and>
   UncachedFileLoader_loadFile (\<lambda>p. Some ''let x;'')
     (\<lambda>fileName sourceText langVer. (sourceText, langVer)) ''a.ts'' ''/a.ts'' (6::nat) =
     Inr (''let x;'', 6)"
  by (simp add: CachedFileLoader_loadFile_def UncachedFileLoader_loadFile_def
      FileCache_getLastDigest_def FileCache_getCache_def FileCache_putCache_def
      FileCache_maybeFreeMemory_def shouldFreeMemory_def DEFAULT_MAX_MEM_USAGE_def
      Cache_get_def Cache_set_def FileCache_updateCache_def FileCache_new_def Cache_new_def
      Let_def)

text \<open>
  Claim C7, amended: for every path registered with a digest that is not empty, the cached
  loader returns what the uncached loader returns (the parsed file, or the error of the read),
  provided that a cached entry for the path, if there is one, holds the result of parsing the
  current disk contents under the logical name and the language version of the call (the
  cache is keyed by the path alone). This holds whatever \<^verbatim>\<open>maybeFreeMemory\<close> the cache
  object dispatches to.
\<close>

theorem loadFile_cached_equals_uncached:
  assumes "map_of (lastDigests (cache l)) filePath = Some d" and "d \<noteq> []"
    and "\<forall>e. map_of (cmap (fileCache (cache l))) filePath = Some e \<longrightarrow>
           (\<exists>sourceText. readFileSync filePath = Some sourceText \<and>
              value' e = createSourceFile fileName sourceText langVer)"
  shows "fst (CachedFileLoader_loadFile readFileSync createSourceFile maybeFreeMemory
                readStart readEnd fileName filePath langVer l) =
         UncachedFileLoader_loadFile readFileSync createSourceFile fileName filePath langVer"
proof (cases "map_of (cmap (fileCache (cache l))) filePath")
  case None
  have dig: "FileCache_getLastDigest filePath ((cache l)\<lparr>fileCache := fc\<rparr>) = Inr d" for fc
    using assms(1,2) by (simp add: FileCache_getLastDigest_def)
  show ?thesis
    by (cases "readFileSync filePath")
      (simp_all add: CachedFileLoader_loadFile_def UncachedFileLoader_loadFile_def
        FileCache_getCache_miss [OF None] dig Let_def case_prod_beta)
next
  case (Some e)
  with assms(3) obtain sourceText where "readFileSync filePath = Some sourceText"
    and "value' e = createSourceFile fileName sourceText langVer" by blast
  then show ?thesis
    by (simp add: CachedFileLoader_loadFile_def UncachedFileLoader_loadFile_def
        FileCache_getCache_hit [OF Some])
qed

theorem loadFile_cached_equals_uncached_witness:
  "fst (CachedFileLoader_loadFile (\<lambda>p. if p = ''/a.ts'' then Some ''x'' else None)
          (\<lambda>fileName sourceText langVer. length sourceText)
          (FileCache_maybeFreeMemory 0) 10 12 ''a.ts'' ''/a.ts'' (5::nat)
          \<lparr>cache = example_fileCache, totalReadTimeMs = 0\<rparr>) = Inr 1
   \<and> UncachedFileLoader_loadFile (\<lambda>p. if p = ''/a.ts'' then Some ''x'' else None)
          (\<lambda>fileName sourceText langVer. length sourceText) ''a.ts'' ''/a.ts'' (5::nat) = Inr 1
   \<and> fst (CachedFileLoader_loadFile (\<lambda>p. Some ''let x;'')
          (\<lambda>fileName sourceText langVer. length sourceText)
          (FileCache_maybeFreeMemory 0) 10 12 ''c.ts'' ''/c.ts'' (5::nat)
          \<lparr>cache = fst (FileCache_updateCache [(''/c.ts'', ''d3'')] example_fileCache),
           totalReadTimeMs = 0\<rparr>) = Inr 6
   \<and> UncachedFileLoader_loadFile (\<lambda>p. Some ''let x;'')
          (\<lambda>fileName sourceText langVer. length sourceText) ''c.ts'' ''/c.ts'' (5::nat) = Inr 6"
proof -
  have a: "fst (CachedFileLoader_loadFile (\<lambda>p. if p = ''/a.ts'' then Some ''x'' else None)
          (\<lambda>fileName sourceText langVer. length sourceText)
          (FileCache_maybeFreeMemory 0) 10 12 ''a.ts'' ''/a.ts'' (5::nat)
          \<lparr>cache = example_fileCache, totalReadTimeMs = 0\<rparr>) =
        UncachedFileLoader_loadFile (\<lambda>p. if p = ''/a.ts'' then Some ''x'' else None)
          (\<lambda>fileName sourceText langVer. length sourceText) ''a.ts'' ''/a.ts'' (5::nat)"
    by (rule loadFile_cached_equals_uncached [where d = "''d1''"])
      (simp_all add: example_fileCache_def)
  have b: "fst (CachedFileLoader_loadFile (\<lambda>p. Some ''let x;'')
          (\<lambda>fileName sourceText langVer. length sourceText)
          (FileCache_maybeFreeMemory 0) 10 12 ''c.ts'' ''/c.ts'' (5::nat)
          \<lparr>cache = fst (FileCache_updateCache [(''/c.ts'', ''d3'')] example_fileCache),
           totalReadTimeMs = 0\<rparr>) =
        UncachedFileLoader_loadFile (\<lambda>p. Some ''let x;'')
          (\<lambda>fileName sourceText langVer. length sourceText) ''c.ts'' ''/c.ts'' (5::nat)"
    by (rule loadFile_cached_equals_uncached [where d = "''d3''"])
      (simp_all add: lastDigests_updateCache FileCache_updateCache_def Cache_get_def
        example_fileCache_def)
  have u1: "UncachedFileLoader_loadFile (\<lambda>p. if p = ''/a.ts'' then Some ''x'' else None)
          (\<lambda>fileName sourceText langVer. length sourceText) ''a.ts'' ''/a.ts'' (5::nat) = Inr 1"
    by (simp add: UncachedFileLoader_loadFile_def)
  have u2: "UncachedFileLoader_loadFile (\<lambda>p. Some ''let x;'')
          (\<lambda>fileName sourceText langVer. length sourceText) ''c.ts'' ''/c.ts'' (5::nat) = Inr 6"
    by (simp add: UncachedFileLoader_loadFile_def)
  from a b u1 u2 show ?thesis by simp
qed

subsection \<open>Lookups change the store\<close>

text \<open>
  Claim C10 (lookups are not observation-free): every \<^verbatim>\<open>getCache\<close> and every
  \<^verbatim>\<open>inCache\<close> adds one to \<^verbatim>\<open>reads\<close> of the file store; when the path is cached
  the call also adds one to \<^verbatim>\<open>hits\<close> and moves the entry to the end of the recency order.
  So on a store of two entries \<^verbatim>\<open>evict\<close> drops the first one, and after
  \<^verbatim>\<open>inCache\<close> of the first one it drops the other one instead.
\<close>

theorem getCache_inCache_observable:
  "reads (stats (fileCache (fst (snd (FileCache_getCache filePath s))))) =
     reads (stats (fileCache s)) + 1 \<and>
   reads (stats (fileCache (fst (snd (FileCache_inCache filePath s))))) =
     reads (stats (fileCache s)) + 1 \<and>
   (\<forall>e. map_of (cmap (fileCache s)) filePath = Some e \<longrightarrow>
      fst (FileCache_inCache filePath s) \<and>
      hits (stats (fileCache (fst (snd (FileCache_getCache filePath s))))) =
        hits (stats (fileCache s)) + 1 \<and>
      hits (stats (fileCache (fst (snd (FileCache_inCache filePath s))))) =
        hits (stats (fileCache s)) + 1 \<and>
      cmap (fileCache (fst (snd (FileCache_getCache filePath s)))) =
        AList.delete filePath (cmap (fileCache s)) @ [(filePath, e)] \<and>
      cmap (fileCache (fst (snd (FileCache_inCache filePath s)))) =
        AList.delete filePath (cmap (fileCache s)) @ [(filePath, e)]) \<and>
   (\<forall>e q e'. cmap (fileCache s) = [(filePath, e), (q, e')] \<and> q \<noteq> filePath \<longrightarrow>
      cmap (fst (snd (Cache_evict None (fileCache s)))) = [(q, e')] \<and>
      cmap (fst (snd (Cache_evict None (fileCache (fst (snd (FileCache_inCache filePath s))))))) =
        [(filePath, e)])"
proof (intro conjI allI impI)
  show "reads (stats (fileCache (fst (snd (FileCache_getCache filePath s))))) =
     reads (stats (fileCache s)) + 1"
    by (cases "map_of (cmap (fileCache s)) filePath")
      (simp_all add: FileCache_getCache_miss FileCache_getCache_hit)
  show "reads (stats (fileCache (fst (snd (FileCache_inCache filePath s))))) =
     reads (stats (fileCache s)) + 1"
    by (cases "map_of (cmap (fileCache s)) filePath")
      (simp_all add: FileCache_inCache_def FileCache_getCache_miss FileCache_getCache_hit)
next
  fix e
  assume hit: "map_of (cmap (fileCache s)) filePath = Some e"
  have fresh: "filePath \<notin> fst ` set (AList.delete filePath (cmap (fileCache s)))"
    by (rule AList.delete_notin_dom)
  have upd: "AList.update k v m = m @ [(k, v)]" if "k \<notin> fst ` set m"
    for k :: string and v :: "'a SourceFileEntry" and m
    using that by (induction m) auto
  note moved = upd [OF fresh]
  show "fst (FileCache_inCache filePath s)"
    by (simp add: FileCache_inCache_def FileCache_getCache_hit [OF hit])
  show "hits (stats (fileCache (fst (snd (FileCache_getCache filePath s))))) =
        hits (stats (fileCache s)) + 1"
    by (simp add: FileCache_getCache_hit [OF hit])
  show "hits (stats (fileCache (fst (snd (FileCache_inCache filePath s))))) =
        hits (stats (fileCache s)) + 1"
    by (simp add: FileCache_inCache_def FileCache_getCache_hit [OF hit])
  show "cmap (fileCache (fst (snd (FileCache_getCache filePath s)))) =
        AList.delete filePath (cmap (fileCache s)) @ [(filePath, e)]"
    by (simp add: FileCache_getCache_hit [OF hit] moved)
  show "cmap (fileCache (fst (snd (FileCache_inCache filePath s)))) =
        AList.delete filePath (cmap (fileCache s)) @ [(filePath, e)]"
    by (simp add: FileCache_inCache_def FileCache_getCache_hit [OF hit] moved)
next
  fix e q e'
  assume two: "cmap (fileCache s) = [(filePath, e), (q, e')] \<and> q \<noteq> filePath"
  then have hit: "map_of (cmap (fileCache s)) filePath = Some e" by simp
  from two have m: "cmap (fileCache s) = [(filePath, e), (q, e')]"
    and ne: "filePath \<noteq> q" "q \<noteq> filePath" by auto
  from m ne show "cmap (fst (snd (Cache_evict None (fileCache s)))) = [(q, e')]"
    by (simp add: Cache_evict_def)
  from m ne
  show "cmap (fst (snd (Cache_evict None (fileCache (fst (snd (FileCache_inCache filePath s))))))) =
        [(filePath, e)]"
    by (simp add: FileCache_inCache_def FileCache_getCache_hit [OF hit] Cache_evict_def)
qed

theorem getCache_inCache_observable_witness:
  "FileCache_inCache ''/a.ts'' example_fileCache =
     (True,
      example_fileCache
        \<lparr>fileCache :=
           \<lparr>name = ''file'',
            cmap = [(''/b.ts'', \<lparr>digest = ''d2'', value' = 2\<rparr>),
                    (''/a.ts'', \<lparr>digest = ''d1'', value' = 1\<rparr>)],
            stats = \<lparr>reads = 1, hits = 1, evictions = 0\<rparr>\<rparr>\<rparr>,
      [CacheHit ''file'' ''/a.ts''])
   \<and> cmap (fst (snd (Cache_evict None (fileCache example_fileCache)))) =
      [(''/b.ts'', \<lparr>digest = ''d2'', value' = 2\<rparr>)]
   \<and> cmap (fst (snd (Cache_evict None
        (fileCache (fst (snd (FileCache_inCache ''/a.ts'' example_fileCache))))))) =
      [(''/a.ts'', \<lparr>digest = ''d1'', value' = 1\<rparr>)]"
  using getCache_inCache_observable [of "''/a.ts''" example_fileCache]
  by (simp add: FileCache_inCache_def FileCache_getCache_def Cache_get_def Cache_evict_def
      example_fileCache_def)

end
